theory Spec2Isabelle
  imports Main "HOL-Library.Sublist" "HOL-Library.List_Lexorder" "HOL-Library.Product_Lexorder"
    "HOL-Library.Word" "HOL-Library.AList"
begin

section \<open>Strings\<close>

text \<open>
  A Python \<open>str\<close> is a sequence of Unicode code points; \<open>sorted\<close> compares two of them
  code point by code point, a proper prefix first, which is the lexicographic order on lists.
  \<open>cps\<close> turns an ASCII literal into its code points.
\<close>

type_synonym ustr = "nat list"

definition cps :: "string \<Rightarrow> ustr" where
  "cps s = map of_char s"

text \<open>\<open>sep.join(xs)\<close> and \<open>s.split(sep)\<close> for a one-character separator.\<close>

fun join :: "ustr \<Rightarrow> ustr list \<Rightarrow> ustr" where
  "join sep [] = []"
| "join sep [x] = x"
| "join sep (x # y # ys) = x @ sep @ join sep (y # ys)"

fun str_split :: "nat \<Rightarrow> ustr \<Rightarrow> ustr list" where
  "str_split sep [] = [ []]"
| "str_split sep (c # cs) =
     (if c = sep then [] # str_split sep cs
      else (case str_split sep cs of [] \<Rightarrow> [ [c]] | w # ws \<Rightarrow> (c # w) # ws))"

text \<open>\<open>s.rfind(c)\<close>: the last index of \<open>c\<close>, or \<open>-1\<close>.\<close>

definition rfind :: "nat \<Rightarrow> ustr \<Rightarrow> int" where
  "rfind c s =
     (case filter (\<lambda>i. s ! i = c) [0..<length s] of
        [] \<Rightarrow> - 1
      | i # js \<Rightarrow> int (last (i # js)))"

text \<open>\<open>str(n)\<close> for a length: the decimal digits.\<close>

fun str_nat :: "nat \<Rightarrow> ustr" where
  "str_nat n = (if n < 10 then [48 + n] else str_nat (n div 10) @ [48 + n mod 10])"

declare str_nat.simps [simp del]

section \<open>The regular expressions of \<open>ENV_PATTERNS\<close>\<close>

text \<open>
  \<open>re.findall(pattern, content, re.IGNORECASE)\<close> on a \<open>str\<close> pattern compares characters
  through the Unicode simple lower-case mapping and the engine's table of extra cases.
  The patterns only ever compare a lower-cased input character with an ASCII character,
  with U+0131 or with U+017F. The code points whose lower case is one of those are
  \<open>A\<close> to \<open>Z\<close>, U+0130 (lower case \<open>i\<close>) and U+212A (lower case \<open>k\<close>);
  \<open>unicode_tolower\<close> is the mapping on these, and the identity elsewhere, where the full
  table yields no value the patterns test for.
\<close>

definition unicode_tolower :: "nat \<Rightarrow> nat" where
  "unicode_tolower c =
     (if 65 \<le> c \<and> c \<le> 90 then c + 32
      else if c = 0x130 then 0x69
      else if c = 0x212A then 0x6B
      else c)"

text \<open>
  The engine's extra cases: lower-case characters that share an upper case. The rows
  below U+0250; the other rows relate characters no pattern of this program mentions.
\<close>

definition EXTRA_CASES :: "nat \<Rightarrow> nat list" where
  "EXTRA_CASES lo =
     (if lo = 0x69 then [0x131]
      else if lo = 0x73 then [0x17F]
      else if lo = 0xB5 then [0x3BC]
      else if lo = 0x131 then [0x69]
      else if lo = 0x17F then [0x73]
      else [])"

text \<open>
  A pattern character \<open>c\<close> matches the input character \<open>ch\<close> when the lower case of
  \<open>ch\<close> is the lower case of \<open>c\<close> or one of its extra cases. For a character without
  case (a digit, a quote, a bracket) this is equality.
\<close>

definition literal_ok :: "nat \<Rightarrow> nat \<Rightarrow> bool" where
  "literal_ok c ch =
     (let lo = unicode_tolower c
      in unicode_tolower ch = lo \<or> unicode_tolower ch \<in> set (EXTRA_CASES lo))"

text \<open>The members of a character class \<open>[...]\<close>: single characters and ranges.\<close>

datatype set_item = LITERAL nat | RANGE nat nat

fun item_ok :: "set_item \<Rightarrow> nat \<Rightarrow> bool" where
  "item_ok (LITERAL c) ch = literal_ok c ch"
| "item_ok (RANGE a b) ch = list_ex (\<lambda>x. literal_ok x ch) [a..<Suc b]"

text \<open>What matches exactly one character: a literal, a class, a negated class \<open>[^...]\<close>.\<close>

datatype atom = Literal nat | In "set_item list" | Negated_In "set_item list"

fun atom_ok :: "atom \<Rightarrow> nat \<Rightarrow> bool" where
  "atom_ok (Literal c) ch = literal_ok c ch"
| "atom_ok (In items) ch = list_ex (\<lambda>i. item_ok i ch) items"
| "atom_ok (Negated_In items) ch = (\<not> list_ex (\<lambda>i. item_ok i ch) items)"

text \<open>
  The parse tree of a pattern, as far as \<open>ENV_PATTERNS\<close> needs it: a pattern is a
  sequence of nodes; a node is one character, a greedy repetition \<open>x?\<close>, \<open>x*\<close>, \<open>x+\<close> of
  one character (\<open>Max_Repeat lo hi\<close>, with \<open>None\<close> for no upper bound), or the capturing
  group.
\<close>

datatype node = Atom atom | Max_Repeat nat "nat option" atom | Subpattern "node list"

text \<open>The number of leading characters of the input that an atom accepts.\<close>

fun count :: "atom \<Rightarrow> ustr \<Rightarrow> nat" where
  "count a [] = 0"
| "count a (c # cs) = (if atom_ok a c then Suc (count a cs) else 0)"

text \<open>
  Backtracking matching at the start of the input. The result lists every way the
  pattern can match there, in the order the engine tries them (a greedy repetition takes
  the longest run first and gives characters back one at a time); each way is the text of
  group 1, if the group has matched, and the input left. The engine reports the first.
\<close>

fun match_node :: "node \<Rightarrow> ustr \<Rightarrow> (ustr option \<times> ustr) list"
  and match_seq :: "node list \<Rightarrow> ustr \<Rightarrow> (ustr option \<times> ustr) list" where
  "match_node (Atom a) s =
     (case s of [] \<Rightarrow> [] | c # cs \<Rightarrow> if atom_ok a c then [(None, cs)] else [])"
| "match_node (Max_Repeat lo hi a) s =
     (let n = (case hi of None \<Rightarrow> count a s | Some h \<Rightarrow> min h (count a s))
      in map (\<lambda>k. (None, drop k s)) (rev [lo..<Suc n]))"
| "match_node (Subpattern ns) s =
     map (\<lambda>(g, r). (Some (take (length s - length r) s), r)) (match_seq ns s)"
| "match_seq [] s = [(None, s)]"
| "match_seq (n # ns) s =
     concat (map (\<lambda>(g, r). map (\<lambda>(g', r'). (case g' of None \<Rightarrow> g | Some t \<Rightarrow> Some t, r'))
                                (match_seq ns r))
                 (match_node n s))"

text \<open>
  \<open>re.findall\<close> with one group: scan from the left; where the pattern matches, keep the
  text of group 1 and go on after the match; elsewhere move one character on. A match
  that consumes nothing is followed by a move of one character; no pattern of
  \<open>ENV_PATTERNS\<close> has such a match, each starts with a literal character.
\<close>

function findall :: "node list \<Rightarrow> ustr \<Rightarrow> ustr list" where
  "findall p s =
     (case match_seq p s of
        [] \<Rightarrow> (case s of [] \<Rightarrow> [] | c # cs \<Rightarrow> findall p cs)
      | (g, r) # alternatives \<Rightarrow>
          (case g of None \<Rightarrow> [] | Some t \<Rightarrow> t)
          # (if length r < length s then findall p r
             else (case s of [] \<Rightarrow> [] | c # cs \<Rightarrow> findall p cs)))"
  by pat_completeness auto
termination
  by (relation "measure (\<lambda>(p, s). length s)") auto

declare findall.simps [simp del]

text \<open>A run of literal characters.\<close>

definition literals :: "ustr \<Rightarrow> node list" where
  "literals s = map (\<lambda>c. Atom (Literal c)) s"

text \<open>\<open>["\']\<close>, \<open>([^"\']+)\<close>, \<open>[A-Z_]\<close>, \<open>[A-Z0-9_]\<close> and \<open>([A-Z_][A-Z0-9_]*)\<close>.\<close>

definition quote :: atom where
  "quote = In [LITERAL 34, LITERAL 39]"

definition quoted_name :: node where
  "quoted_name = Subpattern [Max_Repeat 1 None (Negated_In [LITERAL 34, LITERAL 39])]"

definition name_start :: atom where
  "name_start = In [RANGE 65 90, LITERAL 95]"

definition name_char :: atom where
  "name_char = In [RANGE 65 90, RANGE 48 57, LITERAL 95]"

definition var_name :: node where
  "var_name = Subpattern [Atom name_start, Max_Repeat 0 None name_char]"

text \<open>\<^verbatim>\<open>os\.getenv\(["\']([^"\']+)["\']\)\<close>\<close>

definition getenv_pattern :: "node list" where
  "getenv_pattern =
     literals (cps ''os.getenv('') @ [Atom quote, quoted_name, Atom quote, Atom (Literal 41)]"

text \<open>\<^verbatim>\<open>os\.environ\[?["\']([^"\']+)["\']\]?\<close>\<close>

definition environ_pattern :: "node list" where
  "environ_pattern =
     literals (cps ''os.environ'') @
     [Max_Repeat 0 (Some 1) (Literal 91), Atom quote, quoted_name, Atom quote,
      Max_Repeat 0 (Some 1) (Literal 93)]"

text \<open>\<^verbatim>\<open>\$\{?([A-Z_][A-Z0-9_]*)\}?\<close>\<close>

definition shell_pattern :: "node list" where
  "shell_pattern =
     [Atom (Literal 36), Max_Repeat 0 (Some 1) (Literal 123), var_name,
      Max_Repeat 0 (Some 1) (Literal 125)]"

text \<open>\<^verbatim>\<open>process\.env\.([A-Z_][A-Z0-9_]*)\<close>\<close>

definition process_env_pattern :: "node list" where
  "process_env_pattern = literals (cps ''process.env.'') @ [var_name]"

definition ENV_PATTERNS :: "node list list" where
  "ENV_PATTERNS = [getenv_pattern, environ_pattern, shell_pattern, process_env_pattern]"

text \<open>
  The second half of \<open>find_env_vars_in_file\<close>: the loop over \<open>ENV_PATTERNS\<close> that
  collects the matches in the set \<open>found_vars\<close>.
\<close>

definition find_env_vars :: "ustr \<Rightarrow> ustr set" where
  "find_env_vars content =
     fold (\<lambda>pattern found_vars. found_vars \<union> set (findall pattern content)) ENV_PATTERNS {}"

section \<open>Reading a file\<close>

datatype exception =
  UnicodeDecodeError | UnicodeEncodeError | PermissionError | ValueError | OSError

text \<open>
  What opening and reading a file does: it delivers the file's bytes or raises.
  \<open>OSError\<close> stands for every error of the operating system other than a permission
  error.
\<close>

datatype read_outcome = Bytes "8 word list" | Raises exception

datatype errors = Strict | Ignore

definition is_continuation :: "8 word \<Rightarrow> bool" where
  "is_continuation b = (0x80 \<le> b \<and> b < 0xC0)"

definition emit :: "nat \<Rightarrow> exception + ustr \<Rightarrow> exception + ustr" where
  "emit c r = (case r of Inl e \<Rightarrow> Inl e | Inr t \<Rightarrow> Inr (c # t))"

definition invalid :: "errors \<Rightarrow> exception + ustr \<Rightarrow> exception + ustr" where
  "invalid h r = (case h of Strict \<Rightarrow> Inl UnicodeDecodeError | Ignore \<Rightarrow> r)"

text \<open>
  The UTF-8 decoder. A byte that cannot start a character is an error of one byte; a
  start byte followed by a wrong byte is an error that covers the bytes accepted so far,
  and decoding resumes at the wrong byte; input that ends inside a character is an error
  that covers the rest. Overlong forms, surrogates and code points above U+10FFFF are
  rejected at the second byte. \<open>Strict\<close> raises at an error, \<open>Ignore\<close> drops the bytes the
  error covers and goes on.
\<close>

fun utf8_decode :: "errors \<Rightarrow> 8 word list \<Rightarrow> exception + ustr" where
  "utf8_decode h [] = Inr []"
| "utf8_decode h (b0 # rest) =
     (if b0 < 0x80 then emit (unat b0) (utf8_decode h rest)
      else if b0 < 0xC2 then invalid h (utf8_decode h rest)
      else if b0 < 0xE0 then
        (case rest of
           [] \<Rightarrow> invalid h (Inr [])
         | b1 # r1 \<Rightarrow>
             if \<not> is_continuation b1 then invalid h (utf8_decode h rest)
             else emit (unat b0 * 64 + unat b1 - (0xC0 * 64 + 0x80)) (utf8_decode h r1))
      else if b0 < 0xF0 then
        (case rest of
           [] \<Rightarrow> invalid h (Inr [])
         | b1 # r1 \<Rightarrow>
             if \<not> is_continuation b1 \<or> (if b1 < 0xA0 then b0 = 0xE0 else b0 = 0xED)
             then invalid h (utf8_decode h rest)
             else (case r1 of
                     [] \<Rightarrow> invalid h (Inr [])
                   | b2 # r2 \<Rightarrow>
                       if \<not> is_continuation b2 then invalid h (utf8_decode h r1)
                       else emit (unat b0 * 4096 + unat b1 * 64 + unat b2
                                    - (0xE0 * 4096 + 0x80 * 64 + 0x80))
                                 (utf8_decode h r2)))
      else if b0 < 0xF5 then
        (case rest of
           [] \<Rightarrow> invalid h (Inr [])
         | b1 # r1 \<Rightarrow>
             if \<not> is_continuation b1 \<or> (if b1 < 0x90 then b0 = 0xF0 else b0 = 0xF4)
             then invalid h (utf8_decode h rest)
             else (case r1 of
                     [] \<Rightarrow> invalid h (Inr [])
                   | b2 # r2 \<Rightarrow>
                       if \<not> is_continuation b2 then invalid h (utf8_decode h r1)
                       else (case r2 of
                               [] \<Rightarrow> invalid h (Inr [])
                             | b3 # r3 \<Rightarrow>
                                 if \<not> is_continuation b3 then invalid h (utf8_decode h r2)
                                 else emit (unat b0 * 262144 + unat b1 * 4096 + unat b2 * 64
                                              + unat b3
                                              - (0xF0 * 262144 + 0x80 * 4096 + 0x80 * 64 + 0x80))
                                           (utf8_decode h r3))))
      else invalid h (utf8_decode h rest))"

text \<open>Text mode with the default \<open>newline\<close>: \<open>\r\n\<close> and \<open>\r\<close> are read as \<open>\n\<close>.\<close>

fun translate_newlines :: "ustr \<Rightarrow> ustr" where
  "translate_newlines [] = []"
| "translate_newlines [c] = (if c = 13 then [10] else [c])"
| "translate_newlines (c # d # cs) =
     (if c = 13 \<and> d = 10 then 10 # translate_newlines cs
      else if c = 13 then 10 # translate_newlines (d # cs)
      else c # translate_newlines (d # cs))"

text \<open>
  \<open>open(filepath, 'r', encoding='utf-8', errors='ignore')\<close> followed by \<open>f.read()\<close>.
\<close>

definition read_text :: "read_outcome \<Rightarrow> exception + ustr" where
  "read_text f =
     (case f of
        Raises e \<Rightarrow> Inl e
      | Bytes bs \<Rightarrow>
          (case utf8_decode Ignore bs of Inl e \<Rightarrow> Inl e | Inr t \<Rightarrow> Inr (translate_newlines t)))"

text \<open>
  \<open>find_env_vars_in_file\<close>: the \<open>except\<close> clause names two exceptions and returns the
  empty set for them; any other exception leaves the function.
\<close>

definition find_env_vars_in_file :: "read_outcome \<Rightarrow> exception + ustr set" where
  "find_env_vars_in_file f =
     (case read_text f of
        Inl e \<Rightarrow> if e = UnicodeDecodeError \<or> e = PermissionError then Inr {} else Inl e
      | Inr content \<Rightarrow> Inr (find_env_vars content))"

section \<open>Paths\<close>

text \<open>
  A POSIX \<open>Path\<close>: the root (\<open>''\<close>, \<open>/\<close> or \<open>//\<close>) and the components after it.
\<close>

datatype path = PosixPath (root: ustr) (tail: "ustr list")

definition sep :: nat where
  "sep = 47"

definition splitroot :: "ustr \<Rightarrow> ustr \<times> ustr" where
  "splitroot part =
     (if part \<noteq> [] \<and> hd part = sep then
        (let stripped_part = dropWhile (\<lambda>c. c = sep) part
         in if length part - length stripped_part = 2 then ([sep, sep], stripped_part)
            else ([sep], stripped_part))
      else ([], part))"

text \<open>\<open>Path(arg)\<close>: empty components and \<open>.\<close> components are dropped.\<close>

definition Path :: "ustr \<Rightarrow> path" where
  "Path arg =
     (if arg = [] then PosixPath [] []
      else (case splitroot arg of
              (r, rel) \<Rightarrow> PosixPath r (filter (\<lambda>x. x \<noteq> [] \<and> x \<noteq> [46]) (str_split sep rel))))"

text \<open>\<open>str(p)\<close>.\<close>

definition str_path :: "path \<Rightarrow> ustr" where
  "str_path p = (let s = root p @ join [sep] (tail p) in if s = [] then [46] else s)"

text \<open>\<open>p.name\<close> and \<open>p.suffix\<close>.\<close>

definition name :: "path \<Rightarrow> ustr" where
  "name p = (if tail p = [] then [] else last (tail p))"

definition path_suffix :: "path \<Rightarrow> ustr" where
  "path_suffix p =
     (let nm = name p; i = rfind 46 nm
      in if 0 < i \<and> i < int (length nm) - 1 then drop (nat i) nm else [])"

text \<open>\<open>p.relative_to(other)\<close> raises \<open>ValueError\<close> unless \<open>other\<close> is an ancestor.\<close>

definition relative_to :: "path \<Rightarrow> path \<Rightarrow> exception + path" where
  "relative_to p other =
     (if root p = root other \<and> prefix (tail other) (tail p)
      then Inr (PosixPath [] (drop (length (tail other)) (tail p)))
      else Inl ValueError)"

section \<open>The file system, the environment and the output\<close>

text \<open>
  One entry of \<open>target_dir.rglob('*')\<close>: the components of its path below the target
  directory, what \<open>is_file()\<close> does on it (it returns, or it raises the error of the
  underlying \<open>stat\<close>, as it does with a permission error for a file in a directory that
  can be listed but not searched), and what reading it does.
\<close>

record entry =
  rel_parts :: "ustr list"
  is_file :: "exception + bool"
  opened :: read_outcome

text \<open>
  The world of a run.
  \<^item> \<open>tree\<close>: for the string of a path, what \<open>exists()\<close> and \<open>rglob('*')\<close> do there:
    \<open>exists()\<close> raises; or nothing exists at the path (\<open>None\<close>); or something does, and
    \<open>rglob\<close> enumerates the given entries in the given order (a directory that may
    not be listed contributes no entry: \<open>rglob\<close> handles that permission error itself).
  \<^item> \<open>environ\<close>: the process environment.
  \<^item> \<open>encodable\<close>: the characters that the encoder of the standard output accepts.
  \<^item> \<open>stdout\<close>: the text written to the standard output so far.
  \<^item> \<open>stderr\<close>: the tracebacks written to the standard error stream so far, each
    stood for by its exception.
\<close>

record world =
  tree :: "ustr \<Rightarrow> exception + entry list option"
  environ :: "ustr \<rightharpoonup> ustr"
  encodable :: "nat \<Rightarrow> bool"
  stdout :: ustr
  stderr :: "exception list"

text \<open>A standard output in UTF-8 with strict error handling: it refuses the surrogates.\<close>

definition utf8_strict :: "nat \<Rightarrow> bool" where
  "utf8_strict c = (c < 0xD800 \<or> (0xDFFF < c \<and> c < 0x110000))"

text \<open>
  \<open>sys.stdout.write(s)\<close> encodes the whole of \<open>s\<close> before it writes any of it, and
  raises \<open>UnicodeEncodeError\<close> when the encoder refuses a character. \<open>print(s)\<close> writes
  \<open>s\<close> and then the newline. A step that writes returns the new world and the exception
  it raised, if any.
\<close>

definition stdout_write :: "ustr \<Rightarrow> world \<Rightarrow> world \<times> exception option" where
  "stdout_write s w =
     (if list_all (encodable w) s then (w\<lparr>stdout := stdout w @ s\<rparr>, None)
      else (w, Some UnicodeEncodeError))"

definition print :: "ustr \<Rightarrow> world \<Rightarrow> world \<times> exception option" where
  "print s w =
     (case stdout_write s w of
        (w1, None) \<Rightarrow> stdout_write [10] w1
      | (w1, Some x) \<Rightarrow> (w1, Some x))"

text \<open>A sequence of \<open>print\<close> calls; the first that raises ends it.\<close>

fun print_all :: "ustr list \<Rightarrow> world \<Rightarrow> world \<times> exception option" where
  "print_all [] w = (w, None)"
| "print_all (s # ss) w =
     (case print s w of
        (w1, None) \<Rightarrow> print_all ss w1
      | (w1, Some x) \<Rightarrow> (w1, Some x))"

section \<open>The scan\<close>

definition skip_dirs :: "ustr set" where
  "skip_dirs = set (map cps [''__pycache__'', ''.git'', ''node_modules'', ''venv'', ''.venv'', ''env''])"

definition suffixes :: "ustr set" where
  "suffixes = set (map cps [''.py'', ''.js'', ''.ts'', ''.sh'', ''.env'', ''.yml'', ''.yaml''])"

text \<open>The path object that \<open>rglob\<close> yields for an entry.\<close>

definition filepath_of :: "path \<Rightarrow> entry \<Rightarrow> path" where
  "filepath_of target_dir e = PosixPath (root target_dir) (tail target_dir @ rel_parts e)"

text \<open>
  The state of the loop: \<open>env_vars_by_file\<close>, a dictionary in insertion order, and
  \<open>all_env_vars\<close>.
\<close>

type_synonym scan_state = "(ustr \<times> ustr list) list \<times> ustr set"

text \<open>
  The body of the loop over \<open>target_dir.rglob('*')\<close>. In the condition
  \<open>filepath.is_file() and not any(...)\<close> the call of \<open>is_file()\<close> comes first, outside
  any \<open>try\<close>.
\<close>

definition loop_body :: "path \<Rightarrow> entry \<Rightarrow> scan_state \<Rightarrow> exception + scan_state" where
  "loop_body target_dir e st =
     (case st of (env_vars_by_file, all_env_vars) \<Rightarrow>
       (let filepath = filepath_of target_dir e in
        case is_file e of
          Inl x \<Rightarrow> Inl x
        | Inr regular \<Rightarrow>
            if regular \<and> \<not> (\<exists>skip \<in> skip_dirs. sublist skip (str_path filepath)) then
              if path_suffix filepath \<in> suffixes then
                (case find_env_vars_in_file (opened e) of
                   Inl x \<Rightarrow> Inl x
                 | Inr found \<Rightarrow>
                     if found \<noteq> {} then
                       (case relative_to filepath target_dir of
                          Inl x \<Rightarrow> Inl x
                        | Inr rel \<Rightarrow>
                            Inr (AList.update (str_path rel) (sorted_list_of_set found)
                                   env_vars_by_file,
                                 all_env_vars \<union> found))
                     else Inr st)
              else Inr st
            else Inr st))"

fun scan_loop :: "path \<Rightarrow> entry list \<Rightarrow> scan_state \<Rightarrow> exception + scan_state" where
  "scan_loop target_dir [] st = Inr st"
| "scan_loop target_dir (e # es) st =
     (case loop_body target_dir e st of
        Inl x \<Rightarrow> Inl x
      | Inr st' \<Rightarrow> scan_loop target_dir es st')"

text \<open>The files the loop hands to \<open>find_env_vars_in_file\<close>: those that pass both tests.\<close>

definition scanned :: "path \<Rightarrow> entry \<Rightarrow> bool" where
  "scanned target_dir e =
     (is_file e = Inr True
      \<and> \<not> (\<exists>skip \<in> skip_dirs. sublist skip (str_path (filepath_of target_dir e)))
      \<and> path_suffix (filepath_of target_dir e) \<in> suffixes)"

section \<open>The report\<close>

text \<open>
  \<open>set_vars\<close> is built by iterating \<open>all_env_vars\<close> and is only ever sorted and turned
  into a set, so it is modelled as the set of its elements.
\<close>

definition set_vars :: "ustr set \<Rightarrow> (ustr \<rightharpoonup> ustr) \<Rightarrow> ustr set" where
  "set_vars all_env_vars env = {var \<in> all_env_vars. var \<in> dom env}"

definition missing :: "ustr set \<Rightarrow> (ustr \<rightharpoonup> ustr) \<Rightarrow> ustr set" where
  "missing all_env_vars env = all_env_vars - set_vars all_env_vars env"

text \<open>
  The texts that the report prints, one for each call of \<open>print\<close>, in the order of the
  calls: the lines of one file of the per-file section, and the whole report.
\<close>

definition file_lines :: "ustr \<times> ustr list \<Rightarrow> ustr list" where
  "file_lines item =
     (case item of (filepath, vars_list) \<Rightarrow>
        ([10, 0x1F4C4] @ cps '' '' @ filepath @ cps '':'')
        # map (\<lambda>var. cps ''  '' @ [0x2022] @ cps '' '' @ var) vars_list)"

definition report_lines ::
  "(ustr \<times> ustr list) list \<Rightarrow> ustr set \<Rightarrow> (ustr \<rightharpoonup> ustr) \<Rightarrow> ustr list" where
  "report_lines env_vars_by_file all_env_vars env =
     [ [10, 0x1F50D] @ cps '' Found '' @ str_nat (card all_env_vars)
        @ cps '' unique environment variables in ''
        @ str_nat (length env_vars_by_file) @ cps '' files:'',
      replicate 60 61]
     @ concat (map file_lines (sort env_vars_by_file))
     @ [ [10, 0x1F4CB] @ cps '' All unique variables (alphabetical, because we''
        @ [39] @ cps ''re civilized):'']
     @ map (\<lambda>var. cps ''  '' @ var) (sorted_list_of_set all_env_vars)
     @ [ [10, 0x1F527]
        @ cps '' Currently set in your environment (the ones that actually work):'']
     @ map (\<lambda>var. cps ''  '' @ [0x2713] @ cps '' '' @ var)
         (sorted_list_of_set (set_vars all_env_vars env))
     @ (if missing all_env_vars env \<noteq> {} then
          ([10, 0x26A0, 0xFE0F] @ cps ''  Not set (the ones that will break in production):'')
          # map (\<lambda>var. cps ''  '' @ [0x2717] @ cps '' '' @ var)
              (sorted_list_of_set (missing all_env_vars env))
        else [])"

definition report ::
  "(ustr \<times> ustr list) list \<Rightarrow> ustr set \<Rightarrow> world \<Rightarrow> world \<times> exception option" where
  "report env_vars_by_file all_env_vars w =
     print_all (report_lines env_vars_by_file all_env_vars (environ w)) w"

section \<open>The program\<close>

text \<open>
  How \<open>main\<close> ends: it returns, it calls \<open>sys.exit\<close>, or an exception leaves it. The
  exit status of the process follows: 0 after a return, the argument of \<open>sys.exit\<close>, 1
  after an uncaught exception.
\<close>

datatype result = Returned | Exited nat | Raised exception

definition exit_status :: "result \<Rightarrow> nat" where
  "exit_status r = (case r of Returned \<Rightarrow> 0 | Exited n \<Rightarrow> n | Raised x \<Rightarrow> 1)"

text \<open>What follows a piece of code that prints: \<open>r\<close>, unless a \<open>print\<close> has raised.\<close>

definition finish :: "result \<Rightarrow> world \<times> exception option \<Rightarrow> world \<times> result" where
  "finish r p = (case p of (w1, None) \<Rightarrow> (w1, r) | (w1, Some x) \<Rightarrow> (w1, Raised x))"

definition main :: "ustr list \<Rightarrow> world \<Rightarrow> world \<times> result" where
  "main argv w =
     (if length argv < 2 then
        finish (Exited 1)
          (print_all [cps ''Usage: python env_archaeologist.py <directory>'',
                      cps ''Example: python env_archaeologist.py .''] w)
      else
        (let target_dir = Path (argv ! 1) in
         case tree w (str_path target_dir) of
           Inl x \<Rightarrow> (w, Raised x)
         | Inr None \<Rightarrow>
             finish (Exited 1)
               (print (cps ''Directory '' @ [39] @ str_path target_dir @ [39]
                       @ cps '' not found. Did you check under the couch?'') w)
         | Inr (Some listing) \<Rightarrow>
             (case scan_loop target_dir listing ([], {}) of
                Inl x \<Rightarrow> (w, Raised x)
              | Inr (env_vars_by_file, all_env_vars) \<Rightarrow>
                  finish Returned (report env_vars_by_file all_env_vars w))))"


text \<open>The key of an entry in \<open>env_vars_by_file\<close>: its path relative to the target.\<close>

abbreviation key :: "entry \<Rightarrow> ustr" where
  "key e \<equiv> str_path (PosixPath [] (rel_parts e))"



section \<open>Evaluation and basic facts\<close>

text \<open>The definitions that a run on a concrete input unfolds.\<close>

lemmas pattern_defs = ENV_PATTERNS_def getenv_pattern_def environ_pattern_def shell_pattern_def
  process_env_pattern_def literals_def quote_def quoted_name_def name_start_def name_char_def
  var_name_def
lemmas char_defs = cps_def literal_ok_def unicode_tolower_def EXTRA_CASES_def
lemmas read_defs = find_env_vars_in_file_def read_text_def emit_def invalid_def is_continuation_def
  utf8_decode.simps
lemmas path_defs = Path_def splitroot_def sep_def str_path_def name_def path_suffix_def rfind_def
  filepath_of_def relative_to_def
lemmas scan_defs = loop_body_def skip_dirs_def suffixes_def scanned_def

subsection \<open>Paths and the exclusion test\<close>

lemma join_append:
  "join s (xs @ ys) =
     (if xs = [] then join s ys else if ys = [] then join s xs else join s xs @ s @ join s ys)"
  by (induction s xs rule: join.induct) (auto simp: neq_Nil_conv)

lemma join_snoc: "xs \<noteq> [] \<Longrightarrow> join s (xs @ [x]) = join s xs @ s @ x"
  by (simp add: join_append)


lemma relative_to_filepath:
  "relative_to (filepath_of t e) t = Inr (PosixPath [] (rel_parts e))"
  by (simp add: relative_to_def filepath_of_def)











section \<open>Which files are scanned\<close>

text \<open>
  Claim C1. The keys of the per-file mapping are exactly the regular files under the root
  none of whose path components is an entry of the exclusion set, whose extension is in
  the allow-list, and whose match set is not empty.

  The code tests \<open>skip in str(filepath)\<close>, a substring test on the whole path string,
  where its comment and the name \<open>skip_dirs\<close> speak of directories. The directory
  \<open>proj\<close> with the single regular file \<open>prod.env\<close> of content \<open>$HOME\<close> shows the
  difference: no component of \<open>proj/prod.env\<close> is in the exclusion set, the extension
  \<open>.env\<close> is in the allow-list, the match set is \<open>{HOME}\<close>, and yet the scan ends with
  an empty mapping.
\<close>

theorem env_suffix_file_is_dropped:
  \<open>is_file \<lparr>rel_parts = [cps ''prod.env''], is_file = Inr True,
             opened = Bytes (map of_nat (cps ''$HOME''))\<rparr> = Inr True
   \<and> set (tail (filepath_of (Path (cps ''proj''))
            \<lparr>rel_parts = [cps ''prod.env''], is_file = Inr True,
             opened = Bytes (map of_nat (cps ''$HOME''))\<rparr>)) \<inter> skip_dirs = {}
   \<and> path_suffix (filepath_of (Path (cps ''proj''))
            \<lparr>rel_parts = [cps ''prod.env''], is_file = Inr True,
             opened = Bytes (map of_nat (cps ''$HOME''))\<rparr>) \<in> suffixes
   \<and> find_env_vars_in_file (Bytes (map of_nat (cps ''$HOME''))) = Inr {cps ''HOME''}
   \<and> scan_loop (Path (cps ''proj''))
         [\<lparr>rel_parts = [cps ''prod.env''], is_file = Inr True,
           opened = Bytes (map of_nat (cps ''$HOME''))\<rparr>] ([], {}) = Inr ([], {})\<close>
  by (simp add: path_defs scan_defs read_defs find_env_vars_def pattern_defs char_defs
      findall.simps sublist_code prefix_code)



section \<open>What the patterns find\<close>

text \<open>
  Claim C3. A file whose content has an attribute access on the environment mapping
  with a string-literal key, such as \<open>os.environ.get("NAME")\<close>, has the name of that
  literal in its match set.

  The comment on the second pattern says it covers \<open>os.environ.get('VAR')\<close>, but the
  pattern wants a quote right after \<open>os.environ\<close> or \<open>os.environ[\<close>, and \<open>.get(\<close>
  stands in between. On the file \<open>os.environ.get("NAME")\<close> no pattern matches and the
  match set is empty.
\<close>

theorem environ_get_not_matched:
  \<open>find_env_vars_in_file (Bytes (map of_nat (cps ''os.environ.get("NAME")''))) = Inr {}\<close>
  by (simp add: read_defs find_env_vars_def pattern_defs char_defs findall.simps)

subsection \<open>The shell pattern\<close>

text \<open>
  The characters that \<open>[A-Z0-9_]\<close> accepts when case is ignored: the ASCII letters,
  digits and the underscore, and the four letters whose case pairs them with \<open>i\<close>,
  \<open>s\<close> and \<open>k\<close>.
\<close>

lemma literal_ok_uncased:
  "literal_ok 36 c \<longleftrightarrow> c = 36"
  "literal_ok 123 c \<longleftrightarrow> c = 123"
  "literal_ok 125 c \<longleftrightarrow> c = 125"
  by (auto simp: literal_ok_def unicode_tolower_def EXTRA_CASES_def)

lemma list_ex_upt: "list_ex P [a..<Suc b] \<longleftrightarrow> (\<exists>x. a \<le> x \<and> x \<le> b \<and> P x)"
  unfolding list_ex_iff by auto

lemma name_char_iff:
  "atom_ok name_char c \<longleftrightarrow>
     c \<in> {48..57} \<union> {65..90} \<union> {95} \<union> {97..122} \<union> {0x130, 0x131, 0x17F, 0x212A}"
proof -
  have r: "list_ex (\<lambda>x. literal_ok x c) [65..<Suc 90] \<longleftrightarrow>
      c \<in> {65..90} \<union> {97..122} \<union> {0x130, 0x131, 0x17F, 0x212A}" (is "?L \<longleftrightarrow> ?R")
  proof
    assume ?L
    then obtain x where "65 \<le> x" "x \<le> 90" "literal_ok x c"
      unfolding list_ex_upt by blast
    then show ?R
      by (auto simp: literal_ok_def unicode_tolower_def EXTRA_CASES_def split: if_splits)
  next
    assume ?R
    then consider "c \<in> {65..90}" | "c \<in> {97..122}" | "c = 0x130" | "c = 0x131"
      | "c = 0x17F" | "c = 0x212A" by auto
    then have "\<exists>x. 65 \<le> x \<and> x \<le> 90 \<and> literal_ok x c"
    proof cases
      case 1
      then show ?thesis
        by (intro exI [of _ c]) (auto simp: literal_ok_def)
    next
      case 2
      then show ?thesis
        by (intro exI [of _ "c - 32"])
          (auto simp: literal_ok_def unicode_tolower_def EXTRA_CASES_def)
    next
      case 3
      then show ?thesis
        by (intro exI [of _ 73]) (simp add: literal_ok_def unicode_tolower_def EXTRA_CASES_def)
    next
      case 4
      then show ?thesis
        by (intro exI [of _ 73]) (simp add: literal_ok_def unicode_tolower_def EXTRA_CASES_def)
    next
      case 5
      then show ?thesis
        by (intro exI [of _ 83]) (simp add: literal_ok_def unicode_tolower_def EXTRA_CASES_def)
    next
      case 6
      then show ?thesis
        by (intro exI [of _ 75]) (simp add: literal_ok_def unicode_tolower_def EXTRA_CASES_def)
    qed
    then show ?L
      unfolding list_ex_upt .
  qed
  have dig: "\<And>x. 48 \<le> x \<Longrightarrow> x \<le> 57 \<Longrightarrow> literal_ok x c \<longleftrightarrow> c = x"
    by (auto simp: literal_ok_def unicode_tolower_def EXTRA_CASES_def split: if_splits)
  have d: "list_ex (\<lambda>x. literal_ok x c) [48..<Suc 57] \<longleftrightarrow> c \<in> {48..57}"
    unfolding list_ex_upt using dig by auto
  have u: "literal_ok 95 c \<longleftrightarrow> c = 95"
    by (auto simp: literal_ok_def unicode_tolower_def EXTRA_CASES_def)
  show ?thesis
    unfolding name_char_def atom_ok.simps list_ex_Cons_iff list_ex_Nil_iff item_ok.simps r d u by auto
qed


lemma BAR_chars:
  "atom_ok name_start 66" "atom_ok name_char 65" "atom_ok name_char 82"
  "\<not> atom_ok name_char 125" "\<not> atom_ok name_char 36" "\<not> atom_ok name_start 123"
  by (simp_all add: name_char_iff)
     (simp_all add: name_start_def literal_ok_def unicode_tolower_def EXTRA_CASES_def)

lemma shell_no_match: "s = [] \<or> hd s \<noteq> 36 \<Longrightarrow> match_seq shell_pattern s = []"
  by (cases s) (auto simp: shell_pattern_def literal_ok_uncased)

lemma findall_shell_skip:
  "36 \<notin> set pre \<Longrightarrow> findall shell_pattern (pre @ s) = findall shell_pattern s"
proof (induction pre)
  case Nil
  show ?case by simp
next
  case (Cons c pre)
  then have "match_seq shell_pattern ((c # pre) @ s) = []"
    by (intro shell_no_match) auto
  then have "findall shell_pattern ((c # pre) @ s) = findall shell_pattern (pre @ s)"
    by (subst findall.simps) simp
  with Cons show ?case by simp
qed

lemma findall_shell_none: "36 \<notin> set s \<Longrightarrow> findall shell_pattern s = []"
proof -
  assume "36 \<notin> set s"
  then have "findall shell_pattern (s @ []) = findall shell_pattern []"
    by (rule findall_shell_skip)
  also have "\<dots> = []"
    by (subst findall.simps) (simp add: shell_no_match)
  finally show ?thesis by simp
qed

lemma match_braced:
  "\<exists>alts. match_seq shell_pattern (cps ''${BAR}'' @ rest) = (Some (cps ''BAR''), rest) # alts"
  by (simp add: shell_pattern_def var_name_def cps_def BAR_chars literal_ok_uncased)

lemma match_plain:
  assumes "rest = [] \<or> \<not> atom_ok name_char (hd rest)"
  shows "\<exists>r alts. match_seq shell_pattern (cps ''$BAR'' @ rest) = (Some (cps ''BAR''), r) # alts
           \<and> (r = rest \<or> rest = 125 # r)"
proof (cases rest)
  case Nil
  then show ?thesis
    by (simp add: shell_pattern_def var_name_def cps_def BAR_chars literal_ok_uncased)
next
  case (Cons c cs)
  with assms have "\<not> atom_ok name_char c" by simp
  then show ?thesis
    unfolding Cons
    by (cases "c = 125")
       (simp_all add: shell_pattern_def var_name_def cps_def BAR_chars literal_ok_uncased)
qed

lemma findall_braced:
  "findall shell_pattern (cps ''${BAR}'' @ rest) = cps ''BAR'' # findall shell_pattern rest"
proof -
  obtain alts where
    "match_seq shell_pattern (cps ''${BAR}'' @ rest) = (Some (cps ''BAR''), rest) # alts"
    using match_braced by blast
  then show ?thesis
    by (subst findall.simps) (simp add: cps_def)
qed

lemma findall_plain:
  assumes "rest = [] \<or> \<not> atom_ok name_char (hd rest)"
  shows "\<exists>r. findall shell_pattern (cps ''$BAR'' @ rest) = cps ''BAR'' # findall shell_pattern r
           \<and> (r = rest \<or> rest = 125 # r)"
proof -
  obtain r alts where
    m: "match_seq shell_pattern (cps ''$BAR'' @ rest) = (Some (cps ''BAR''), r) # alts"
    and r: "r = rest \<or> rest = 125 # r"
    using match_plain [OF assms] by blast
  from r have "length r < length (cps ''$BAR'' @ rest)"
    by (auto simp: cps_def)
  with m have "findall shell_pattern (cps ''$BAR'' @ rest) = cps ''BAR'' # findall shell_pattern r"
    by (subst findall.simps) simp
  with r show ?thesis by blast
qed

lemma findall_plain_skip:
  assumes "rest = [] \<or> \<not> atom_ok name_char (hd rest)"
  shows "findall shell_pattern (cps ''$BAR'' @ rest) = cps ''BAR'' # findall shell_pattern rest"
proof -
  obtain r where f: "findall shell_pattern (cps ''$BAR'' @ rest) = cps ''BAR'' # findall shell_pattern r"
    and r: "r = rest \<or> rest = 125 # r"
    using findall_plain [OF assms] by blast
  from r have "findall shell_pattern rest = findall shell_pattern r"
  proof
    assume "rest = 125 # r"
    then show ?thesis
      using findall_shell_skip [of "[125]" r] by simp
  qed simp
  with f show ?thesis by simp
qed

text \<open>
  Claim C8. A file whose content contains both \<open>${BAR}\<close> and \<open>$BAR\<close> has exactly the
  match set \<open>{BAR}\<close>, the two occurrences counting once, when no other pattern matches
  the content.

  The shell pattern itself may match elsewhere in such a content: \<open>${BAR} $BAR $FOO\<close>
  contains both texts, none of the other three patterns matches it, and its match set is
  \<open>{BAR, FOO}\<close>. The text \<open>$BAR\<close> may also be the start of a longer name:
  \<open>${BAR} $BARS\<close> has the match set \<open>{BAR, BARS}\<close>.
\<close>

theorem other_dollar_counterexample:
  \<open>sublist (cps ''${BAR}'') (cps ''${BAR} $BAR $FOO'')
   \<and> sublist (cps ''$BAR'') (cps ''${BAR} $BAR $FOO'')
   \<and> findall getenv_pattern (cps ''${BAR} $BAR $FOO'') = []
   \<and> findall environ_pattern (cps ''${BAR} $BAR $FOO'') = []
   \<and> findall process_env_pattern (cps ''${BAR} $BAR $FOO'') = []
   \<and> find_env_vars (cps ''${BAR} $BAR $FOO'') = {cps ''BAR'', cps ''FOO''}
   \<and> find_env_vars (cps ''${BAR} $BAR $FOO'') \<noteq> {cps ''BAR''}
   \<and> sublist (cps ''${BAR}'') (cps ''${BAR} $BARS'')
   \<and> sublist (cps ''$BAR'') (cps ''${BAR} $BARS'')
   \<and> findall getenv_pattern (cps ''${BAR} $BARS'') = []
   \<and> findall environ_pattern (cps ''${BAR} $BARS'') = []
   \<and> findall process_env_pattern (cps ''${BAR} $BARS'') = []
   \<and> find_env_vars (cps ''${BAR} $BARS'') = {cps ''BAR'', cps ''BARS''}
   \<and> find_env_vars (cps ''${BAR} $BARS'') \<noteq> {cps ''BAR''}\<close>
  by (simp add: find_env_vars_def pattern_defs char_defs findall.simps sublist_code prefix_code)

text \<open>
  Claim C8, as the code has it. Let the content consist of one \<open>${BAR}\<close> and one
  \<open>$BAR\<close>, in either order, within text that has no further \<open>$\<close>, and let the
  character after \<open>$BAR\<close>, if there is one, be none that \<open>[A-Z0-9_]\<close> accepts. If none
  of the other three patterns matches the content, the shell pattern finds \<open>BAR\<close> twice
  and the match set is exactly \<open>{BAR}\<close>.
\<close>

theorem bar_twice_yields_bar:
  assumes "36 \<notin> set pre" and "36 \<notin> set mid" and "36 \<notin> set post"
    and "content = pre @ cps ''${BAR}'' @ mid @ cps ''$BAR'' @ post
           \<and> (post = [] \<or> \<not> atom_ok name_char (hd post))
         \<or> content = pre @ cps ''$BAR'' @ mid @ cps ''${BAR}'' @ post
           \<and> (mid = [] \<or> \<not> atom_ok name_char (hd mid))"
    and "findall getenv_pattern content = []"
    and "findall environ_pattern content = []"
    and "findall process_env_pattern content = []"
  shows "findall shell_pattern content = [cps ''BAR'', cps ''BAR'']
     \<and> find_env_vars content = {cps ''BAR''}"
proof -
  have "findall shell_pattern content = [cps ''BAR'', cps ''BAR'']"
    using assms(4)
  proof
    assume a: "content = pre @ cps ''${BAR}'' @ mid @ cps ''$BAR'' @ post
           \<and> (post = [] \<or> \<not> atom_ok name_char (hd post))"
    then have "findall shell_pattern content
        = cps ''BAR'' # findall shell_pattern (mid @ cps ''$BAR'' @ post)"
      using assms(1) by (simp add: findall_shell_skip findall_braced)
    also have "findall shell_pattern (mid @ cps ''$BAR'' @ post)
        = cps ''BAR'' # findall shell_pattern post"
      using a assms(2) by (simp add: findall_shell_skip findall_plain_skip)
    finally show ?thesis
      using assms(3) by (simp add: findall_shell_none)
  next
    assume a: "content = pre @ cps ''$BAR'' @ mid @ cps ''${BAR}'' @ post
           \<and> (mid = [] \<or> \<not> atom_ok name_char (hd mid))"
    let ?rest = "mid @ cps ''${BAR}'' @ post"
    from a have "?rest = [] \<or> \<not> atom_ok name_char (hd ?rest)"
      by (cases mid) (simp_all add: cps_def BAR_chars)
    then have "findall shell_pattern (cps ''$BAR'' @ ?rest)
        = cps ''BAR'' # findall shell_pattern ?rest"
      by (rule findall_plain_skip)
    with a have "findall shell_pattern content = cps ''BAR'' # findall shell_pattern ?rest"
      using assms(1) by (simp add: findall_shell_skip)
    also have "findall shell_pattern ?rest = cps ''BAR'' # findall shell_pattern post"
      using assms(2) by (simp add: findall_shell_skip findall_braced)
    finally show ?thesis
      using assms(3) by (simp add: findall_shell_none)
  qed
  with assms(5-7) show ?thesis
    by (simp add: find_env_vars_def ENV_PATTERNS_def)
qed

theorem bar_twice_yields_bar_witness:
  \<open>cps ''${BAR} and $BAR'' = [] @ cps ''${BAR}'' @ cps '' and '' @ cps ''$BAR'' @ []
   \<and> 36 \<notin> set (cps '' and '')
   \<and> findall getenv_pattern (cps ''${BAR} and $BAR'') = []
   \<and> findall environ_pattern (cps ''${BAR} and $BAR'') = []
   \<and> findall process_env_pattern (cps ''${BAR} and $BAR'') = []
   \<and> findall shell_pattern (cps ''${BAR} and $BAR'') = [cps ''BAR'', cps ''BAR'']
   \<and> find_env_vars (cps ''${BAR} and $BAR'') = {cps ''BAR''}\<close>
proof -
  have shape: \<open>cps ''${BAR} and $BAR'' = [] @ cps ''${BAR}'' @ cps '' and '' @ cps ''$BAR'' @ []\<close>
    by (simp add: cps_def)
  have mid: "36 \<notin> set (cps '' and '')"
    by (simp add: cps_def)
  have others: \<open>findall getenv_pattern (cps ''${BAR} and $BAR'') = []\<close>
    \<open>findall environ_pattern (cps ''${BAR} and $BAR'') = []\<close>
    \<open>findall process_env_pattern (cps ''${BAR} and $BAR'') = []\<close>
    by (simp_all add: pattern_defs char_defs findall.simps)
  show ?thesis
    using shape mid others
      bar_twice_yields_bar [of "[]" "cps '' and ''" "[]" "cps ''${BAR} and $BAR''"]
    by simp
qed

section \<open>The global set\<close>

lemma loop_body_cases:
  "loop_body t e (bf, a) =
     (case is_file e of
        Inl x \<Rightarrow> Inl x
      | Inr regular \<Rightarrow>
          if scanned t e then
            (case find_env_vars_in_file (opened e) of
               Inl x \<Rightarrow> Inl x
             | Inr found \<Rightarrow>
                 if found \<noteq> {} then
                   Inr (AList.update (key e) (sorted_list_of_set found) bf, a \<union> found)
                 else Inr (bf, a))
          else Inr (bf, a))"
  by (auto simp: loop_body_def scanned_def Let_def relative_to_filepath split: sum.splits)

lemma scan_loop_all_env_vars:
  "scan_loop t es (bf, a) = Inr (bf', a') \<Longrightarrow>
     a' = a \<union> \<Union> {found. \<exists>e \<in> set es. scanned t e \<and> find_env_vars_in_file (opened e) = Inr found}"
proof (induction es arbitrary: bf a)
  case Nil
  then show ?case by simp
next
  case (Cons e es)
  from Cons.prems obtain bf1 a1 where
    step: "loop_body t e (bf, a) = Inr (bf1, a1)" and rest: "scan_loop t es (bf1, a1) = Inr (bf', a')"
    by (auto split: sum.splits)
  have a1: "a1 = a \<union> \<Union> {found. scanned t e \<and> find_env_vars_in_file (opened e) = Inr found}"
    using step by (auto simp: loop_body_cases split: if_splits sum.splits)
  from Cons.IH [OF rest] have
    "a' = a1 \<union> \<Union> {found. \<exists>e \<in> set es. scanned t e \<and> find_env_vars_in_file (opened e) = Inr found}" .
  with a1 show ?case by auto
qed

lemmas sort_eval = sorted_list_of_set_sort_remdups sublist_code prefix_code

lemma scan_example:
  \<open>scan_loop (Path (cps ''proj''))
      [\<lparr>rel_parts = [cps ''src''], is_file = Inr False, opened = Raises OSError\<rparr>,
       \<lparr>rel_parts = [cps ''src'', cps ''b.sh''], is_file = Inr True,
        opened = Bytes (map of_nat (cps ''echo ${HOME} $PATH''))\<rparr>,
       \<lparr>rel_parts = [cps ''a.py''], is_file = Inr True,
        opened = Bytes (map of_nat (cps ''os.getenv("HOME")''))\<rparr>] ([], {})
    = Inr ([(cps ''src/b.sh'', [cps ''HOME'', cps ''PATH'']), (cps ''a.py'', [cps ''HOME''])],
           {cps ''HOME'', cps ''PATH''})\<close>
  by (simp add: path_defs scan_defs read_defs find_env_vars_def pattern_defs char_defs
      findall.simps sort_eval insert_commute)

text \<open>
  Claim C5. After a scan, the global variable set is the union of the match sets of the
  scanned files: every name of some file's match set is in it, and every name in it is in
  some file's match set.
\<close>

theorem global_set_is_union:
  "scan_loop target_dir listing ([], {}) = Inr (env_vars_by_file, all_env_vars) \<Longrightarrow>
     all_env_vars
       = \<Union> {found. \<exists>e \<in> set listing. scanned target_dir e
                     \<and> find_env_vars_in_file (opened e) = Inr found}"
  using scan_loop_all_env_vars [of target_dir listing "[]" "{}"] by simp

theorem global_set_is_union_witness:
  \<open>scan_loop (Path (cps ''proj''))
      [\<lparr>rel_parts = [cps ''src''], is_file = Inr False, opened = Raises OSError\<rparr>,
       \<lparr>rel_parts = [cps ''src'', cps ''b.sh''], is_file = Inr True,
        opened = Bytes (map of_nat (cps ''echo ${HOME} $PATH''))\<rparr>,
       \<lparr>rel_parts = [cps ''a.py''], is_file = Inr True,
        opened = Bytes (map of_nat (cps ''os.getenv("HOME")''))\<rparr>] ([], {})
    = Inr ([(cps ''src/b.sh'', [cps ''HOME'', cps ''PATH'']), (cps ''a.py'', [cps ''HOME''])],
           {cps ''HOME'', cps ''PATH''})
   \<and> {cps ''HOME'', cps ''PATH''}
       = \<Union> {found. \<exists>e \<in> set
           [\<lparr>rel_parts = [cps ''src''], is_file = Inr False, opened = Raises OSError\<rparr>,
            \<lparr>rel_parts = [cps ''src'', cps ''b.sh''], is_file = Inr True,
             opened = Bytes (map of_nat (cps ''echo ${HOME} $PATH''))\<rparr>,
            \<lparr>rel_parts = [cps ''a.py''], is_file = Inr True,
             opened = Bytes (map of_nat (cps ''os.getenv("HOME")''))\<rparr>].
           scanned (Path (cps ''proj'')) e \<and> find_env_vars_in_file (opened e) = Inr found}\<close>
  using global_set_is_union [OF scan_example] scan_example by blast

section \<open>Files that cannot be read or decoded\<close>

subsection \<open>One step of the decoder\<close>







subsection \<open>The two error handlers\<close>








subsection \<open>Dropped bytes\<close>












declare utf8_decode.simps [simp del]








section \<open>Cross-referencing with the environment\<close>

text \<open>
  Claim C6. The collections \<open>set\<close> and \<open>missing\<close> are disjoint, their union is the
  global variable set, and a variable is in \<open>set\<close> exactly when the environment has it
  as a key, compared as it is written.
\<close>

theorem set_and_missing_partition:
  "set_vars all_env_vars env \<inter> missing all_env_vars env = {}
   \<and> set_vars all_env_vars env \<union> missing all_env_vars env = all_env_vars
   \<and> (\<forall>var. var \<in> set_vars all_env_vars env \<longleftrightarrow> var \<in> all_env_vars \<and> env var \<noteq> None)
   \<and> (\<forall>var. var \<in> missing all_env_vars env \<longleftrightarrow> var \<in> all_env_vars \<and> env var = None)"
  by (auto simp: set_vars_def missing_def)

theorem set_and_missing_partition_witness:
  \<open>set_vars {cps ''HOME'', cps ''Path''} [cps ''HOME'' \<mapsto> cps ''/root'', cps ''PATH'' \<mapsto> cps ''/bin'']
     \<inter> missing {cps ''HOME'', cps ''Path''} [cps ''HOME'' \<mapsto> cps ''/root'', cps ''PATH'' \<mapsto> cps ''/bin''] = {}
   \<and> cps ''HOME'' \<in> set_vars {cps ''HOME'', cps ''Path''} [cps ''HOME'' \<mapsto> cps ''/root'', cps ''PATH'' \<mapsto> cps ''/bin'']
   \<and> cps ''Path'' \<in> missing {cps ''HOME'', cps ''Path''} [cps ''HOME'' \<mapsto> cps ''/root'', cps ''PATH'' \<mapsto> cps ''/bin'']\<close>
  using set_and_missing_partition
    [of "{cps ''HOME'', cps ''Path''}" "[cps ''HOME'' \<mapsto> cps ''/root'', cps ''PATH'' \<mapsto> cps ''/bin'']"]
  by (simp add: cps_def)

section \<open>Exit statuses\<close>


lemma print_refused:
  "\<not> list_all (encodable w) s \<Longrightarrow> print s w = (w, Some UnicodeEncodeError)"
  by (simp add: print_def stdout_write_def)


lemma finish_simps:
  "fst (finish r p) = fst p"
  "snd (finish r p) = (case snd p of None \<Rightarrow> r | Some x \<Rightarrow> Raised x)"
  by (cases p; cases "snd p"; simp add: finish_def)+







section \<open>Effects\<close>












section \<open>Determinism\<close>

text \<open>
  A HOL function gives the same result on the same arguments. What may differ between
  two runs on the same directory and environment is the order in which \<open>rglob\<close>
  enumerates the entries (the iteration order of a set never reaches the output, each
  set being sorted before it is printed). The output does not depend on that order.
\<close>

lemma set_update_fresh:
  "k \<notin> fst ` set al \<Longrightarrow> set (AList.update k v al) = insert (k, v) (set al)"
  by (induction al) auto

lemma scan_loop_by_file:
  assumes "scan_loop t es (bf, a) = Inr (bf', a')"
    and "distinct (map fst bf)" and "distinct (map key es)"
    and "fst ` set bf \<inter> key ` set es = {}"
  shows "distinct (map fst bf')
     \<and> set bf' = set bf \<union> {(key e, sorted_list_of_set found) | e found.
            e \<in> set es \<and> scanned t e \<and> find_env_vars_in_file (opened e) = Inr found
            \<and> found \<noteq> {}}"
  using assms
proof (induction es arbitrary: bf a)
  case Nil
  then show ?case by simp
next
  case (Cons e es)
  from Cons.prems(1) obtain bf1 a1 where
    step: "loop_body t e (bf, a) = Inr (bf1, a1)" and rest: "scan_loop t es (bf1, a1) = Inr (bf', a')"
    by (auto split: sum.splits)
  have fresh: "key e \<notin> fst ` set bf"
    using Cons.prems(4) by auto
  have bf1: "set bf1 = set bf \<union> {(key e, sorted_list_of_set found) | found.
            scanned t e \<and> find_env_vars_in_file (opened e) = Inr found \<and> found \<noteq> {}}"
    and d1: "distinct (map fst bf1)"
    and k1: "fst ` set bf1 \<subseteq> insert (key e) (fst ` set bf)"
    using step fresh Cons.prems(2)
    by (auto simp: loop_body_cases set_update_fresh distinct_update dom_update
        split: if_splits sum.splits)
  have "fst ` set bf1 \<inter> key ` set es = {}"
  proof -
    have "insert (key e) (fst ` set bf) \<inter> key ` set es = {}"
      using Cons.prems(3,4) by auto
    with k1 show ?thesis by blast
  qed
  from Cons.IH [OF rest d1 _ this] Cons.prems(3)
  have "distinct (map fst bf')"
    and "set bf' = set bf1 \<union> {(key e, sorted_list_of_set found) | e found.
            e \<in> set es \<and> scanned t e \<and> find_env_vars_in_file (opened e) = Inr found
            \<and> found \<noteq> {}}"
    by auto
  with bf1 show ?case by auto
qed

lemma scan_loop_raises:
  "(\<exists>x. scan_loop t es st = Inl x)
    \<longleftrightarrow> (\<exists>e \<in> set es. isl (is_file e)
           \<or> (scanned t e \<and> isl (find_env_vars_in_file (opened e))))"
proof (induction es arbitrary: st)
  case Nil
  show ?case by simp
next
  case (Cons e es)
  obtain bf a where st: "st = (bf, a)" by (cases st)
  show ?case
    unfolding st scan_loop.simps
    by (cases "is_file e"; cases "find_env_vars_in_file (opened e)")
       (auto simp: loop_body_cases Cons.IH scanned_def split: sum.splits)
qed

lemma print_same:
  assumes "stdout w1 = stdout w2" "encodable w1 = encodable w2"
  shows "stdout (fst (print s w1)) = stdout (fst (print s w2))
     \<and> encodable (fst (print s w1)) = encodable (fst (print s w2))
     \<and> snd (print s w1) = snd (print s w2)"
  using assms by (simp add: print_def stdout_write_def)

lemma print_all_same:
  assumes "stdout w1 = stdout w2" "encodable w1 = encodable w2"
  shows "stdout (fst (print_all ss w1)) = stdout (fst (print_all ss w2))
     \<and> snd (print_all ss w1) = snd (print_all ss w2)"
  using assms
proof (induction ss arbitrary: w1 w2)
  case Nil
  then show ?case by simp
next
  case (Cons s ss)
  obtain v1 r1 where p1: "print s w1 = (v1, r1)" by (cases "print s w1")
  obtain v2 r2 where p2: "print s w2 = (v2, r2)" by (cases "print s w2")
  from print_same [OF Cons.prems, of s] p1 p2
  have same: "stdout v1 = stdout v2" "encodable v1 = encodable v2" "r1 = r2"
    by simp_all
  show ?case
  proof (cases r1)
    case None
    with same p1 p2 Cons.IH [OF same(1,2)] show ?thesis by auto
  next
    case (Some x)
    with same p1 p2 show ?thesis by auto
  qed
qed

lemma sort_eq_of_set_eq:
  fixes xs ys :: "('a::linorder) list"
  assumes "set xs = set ys" "distinct xs" "distinct ys"
  shows "sort xs = sort ys \<and> length xs = length ys"
proof -
  have "sort xs = sort ys"
    using assms by (intro sorted_distinct_set_unique) simp_all
  moreover have "length xs = length ys"
    using assms by (metis distinct_card)
  ultimately show ?thesis by simp
qed

lemma report_same:
  assumes "sort bf1 = sort bf2" "length bf1 = length bf2"
    and "environ w1 = environ w2" "stdout w1 = stdout w2" "encodable w1 = encodable w2"
  shows "stdout (fst (report bf1 a w1)) = stdout (fst (report bf2 a w2))
     \<and> snd (report bf1 a w1) = snd (report bf2 a w2)"
proof -
  have "report_lines bf1 a (environ w1) = report_lines bf2 a (environ w2)"
    using assms(1-3) by (simp add: report_lines_def)
  then show ?thesis
    unfolding report_def using print_all_same [OF assms(4,5)] by simp
qed

text \<open>
  Claim C9. Two runs on the same directory contents, the same environment and the same
  standard output write the same text to the standard output: whatever the order in
  which the entries of the directory are enumerated in each run, no two entries having
  the same relative path, the two outputs are equal, and so are the exit statuses.
\<close>

theorem output_independent_of_order:
  assumes args: "2 \<le> length argv"
    and l1: "tree w1 (str_path (Path (argv ! 1))) = Inr (Some es1)"
    and l2: "tree w2 (str_path (Path (argv ! 1))) = Inr (Some es2)"
    and same: "set es1 = set es2"
    and d1: "distinct (map key es1)" and d2: "distinct (map key es2)"
    and env: "environ w1 = environ w2" and out: "stdout w1 = stdout w2"
    and enc: "encodable w1 = encodable w2"
  shows "stdout (fst (main argv w1)) = stdout (fst (main argv w2))
     \<and> exit_status (snd (main argv w1)) = exit_status (snd (main argv w2))"
proof -
  let ?t = "Path (argv ! 1)"
  let ?bad = "\<lambda>es. \<exists>e \<in> set es. isl (is_file e)
           \<or> (scanned ?t e \<and> isl (find_env_vars_in_file (opened e)))"
  show ?thesis
  proof (cases "?bad es1")
    case True
    then obtain x where x: "scan_loop ?t es1 ([], {}) = Inl x"
      using scan_loop_raises [of ?t es1 "([], {})"] by blast
    from True same have "?bad es2" by simp
    then obtain y where y: "scan_loop ?t es2 ([], {}) = Inl y"
      using scan_loop_raises [of ?t es2 "([], {})"] by blast
    show ?thesis
      using args l1 l2 x y out by (simp add: main_def Let_def exit_status_def)
  next
    case False
    then obtain bf1 a1 where r1: "scan_loop ?t es1 ([], {}) = Inr (bf1, a1)"
      using scan_loop_raises [of ?t es1 "([], {})"]
      by (cases "scan_loop ?t es1 ([], {})") auto
    from False same have "\<not> ?bad es2" by simp
    then obtain bf2 a2 where r2: "scan_loop ?t es2 ([], {}) = Inr (bf2, a2)"
      using scan_loop_raises [of ?t es2 "([], {})"]
      by (cases "scan_loop ?t es2 ([], {})") auto
    have a: "a1 = a2"
      using scan_loop_all_env_vars [OF r1] scan_loop_all_env_vars [OF r2] same by simp
    have b1: "distinct (map fst bf1)" "set bf1 = {(key e, sorted_list_of_set found) | e found.
            e \<in> set es1 \<and> scanned ?t e \<and> find_env_vars_in_file (opened e) = Inr found
            \<and> found \<noteq> {}}"
      using scan_loop_by_file [OF r1 _ d1] by simp_all
    have b2: "distinct (map fst bf2)" "set bf2 = {(key e, sorted_list_of_set found) | e found.
            e \<in> set es2 \<and> scanned ?t e \<and> find_env_vars_in_file (opened e) = Inr found
            \<and> found \<noteq> {}}"
      using scan_loop_by_file [OF r2 _ d2] by simp_all
    have "set bf1 = set bf2"
      using b1(2) b2(2) same by simp
    moreover have "distinct bf1" "distinct bf2"
      using b1(1) b2(1) by (auto simp: distinct_map)
    ultimately have s: "sort bf1 = sort bf2" "length bf1 = length bf2"
      using sort_eq_of_set_eq [of bf1 bf2] by simp_all
    have m1: "main argv w1 = finish Returned (report bf1 a1 w1)"
      using args l1 r1 by (simp add: main_def Let_def)
    have m2: "main argv w2 = finish Returned (report bf2 a1 w2)"
      using args l2 r2 a by (simp add: main_def Let_def)
    show ?thesis
      unfolding m1 m2 finish_simps
      using report_same [OF s env out enc, of a1] by simp
  qed
qed

theorem output_independent_of_order_witness:
  \<open>set [\<lparr>rel_parts = [cps ''a.py''], is_file = Inr True, opened = Bytes (map of_nat (cps ''$A''))\<rparr>,
          \<lparr>rel_parts = [cps ''b.sh''], is_file = Inr True, opened = Bytes (map of_nat (cps ''$B''))\<rparr>]
     = set [\<lparr>rel_parts = [cps ''b.sh''], is_file = Inr True, opened = Bytes (map of_nat (cps ''$B''))\<rparr>,
          \<lparr>rel_parts = [cps ''a.py''], is_file = Inr True, opened = Bytes (map of_nat (cps ''$A''))\<rparr>]
   \<and> stdout (fst (main [cps ''env_archaeologist.py'', cps ''proj'']
        \<lparr>tree = (\<lambda>p. Inr None)(cps ''proj'' := Inr (Some
           [\<lparr>rel_parts = [cps ''a.py''], is_file = Inr True, opened = Bytes (map of_nat (cps ''$A''))\<rparr>,
            \<lparr>rel_parts = [cps ''b.sh''], is_file = Inr True, opened = Bytes (map of_nat (cps ''$B''))\<rparr>])),
         environ = [cps ''A'' \<mapsto> cps ''1''], encodable = utf8_strict, stdout = [], stderr = []\<rparr>))
     = stdout (fst (main [cps ''env_archaeologist.py'', cps ''proj'']
        \<lparr>tree = (\<lambda>p. Inr None)(cps ''proj'' := Inr (Some
           [\<lparr>rel_parts = [cps ''b.sh''], is_file = Inr True, opened = Bytes (map of_nat (cps ''$B''))\<rparr>,
            \<lparr>rel_parts = [cps ''a.py''], is_file = Inr True, opened = Bytes (map of_nat (cps ''$A''))\<rparr>])),
         environ = [cps ''A'' \<mapsto> cps ''1''], encodable = utf8_strict, stdout = [], stderr = []\<rparr>))\<close>
proof -
  let ?a = "\<lparr>rel_parts = [cps ''a.py''], is_file = Inr True, opened = Bytes (map of_nat (cps ''$A''))\<rparr>"
  let ?b = "\<lparr>rel_parts = [cps ''b.sh''], is_file = Inr True, opened = Bytes (map of_nat (cps ''$B''))\<rparr>"
  let ?w1 = "\<lparr>tree = (\<lambda>p. Inr None)(cps ''proj'' := Inr (Some [?a, ?b])),
              environ = [cps ''A'' \<mapsto> cps ''1''], encodable = utf8_strict,
              stdout = [], stderr = []\<rparr>"
  let ?w2 = "\<lparr>tree = (\<lambda>p. Inr None)(cps ''proj'' := Inr (Some [?b, ?a])),
              environ = [cps ''A'' \<mapsto> cps ''1''], encodable = utf8_strict,
              stdout = [], stderr = []\<rparr>"
  let ?argv = "[cps ''env_archaeologist.py'', cps ''proj'']"
  have p: "str_path (Path (?argv ! 1)) = cps ''proj''"
    by (simp add: path_defs cps_def)
  have args: "2 \<le> length ?argv" by simp
  have l1: "tree ?w1 (str_path (Path (?argv ! 1))) = Inr (Some [?a, ?b])"
    unfolding p by simp
  have l2: "tree ?w2 (str_path (Path (?argv ! 1))) = Inr (Some [?b, ?a])"
    unfolding p by simp
  have same: "set [?a, ?b] = set [?b, ?a]" by auto
  have d1: "distinct (map key [?a, ?b])"
    by (simp add: path_defs cps_def)
  have d2: "distinct (map key [?b, ?a])"
    by (simp add: path_defs cps_def)
  show ?thesis
    using output_independent_of_order [OF args l1 l2 same d1 d2] same by simp
qed

end
